theory Spec2Isabelle
  imports Complex_Main "HOL-Library.Word"
begin

section \<open>Shared vocabulary\<close>

text \<open>
  The Fulcrum sources use Qt strings and C++ machine integers. A \<open>QString\<close> is modelled
  as a \<open>string\<close>, a C++ \<open>int\<close> as a 32-bit word read in two's complement, and an
  exception as the left summand of a sum type.
\<close>

type_synonym cint = "32 word"

text \<open>Decimal rendering of a number, as \<open>%d\<close> and the stream operators print it.\<close>

fun show_nat :: "nat \<Rightarrow> string" where
  "show_nat n =
     (if n < 10 then [''0123456789'' ! n]
      else show_nat (n div 10) @ [''0123456789'' ! (n mod 10)])"

declare show_nat.simps [simp del]

definition show_int :: "int \<Rightarrow> string" where
  "show_int i = (if i < 0 then CHR ''-'' # show_nat (nat (- i)) else show_nat (nat i))"

text \<open>\<open>qAbs\<close> of \<open>QtGlobal\<close>: \<open>t >= 0 ? t : -t\<close>, on the machine type.\<close>

definition qAbs :: "cint \<Rightarrow> cint" where
  "qAbs t = (if 0 \<le>s t then t else - t)"

text \<open>The \<open>QString\<close> operations the sources call.\<close>

definition right_str :: "string \<Rightarrow> nat \<Rightarrow> string" where
  "right_str s k = (if k \<ge> length s then s else drop (length s - k) s)"

definition endsWith_chr :: "string \<Rightarrow> char \<Rightarrow> bool" where
  "endsWith_chr s c = (s \<noteq> [] \<and> last s = c)"

definition truncate_str :: "string \<Rightarrow> int \<Rightarrow> string" where
  "truncate_str s pos = (if pos < 0 then [] else take (nat pos) s)"

section \<open>Pluralize2 (src/src/Pluralize2.cpp)\<close>

text \<open>
  \<open>operator<<(QDebug, const Pluralize2 &)\<close>. \<open>Pluralize2_word\<close> is the word text the
  operator streams after the number: \<open>word\<close> followed by \<open>ending\<close> in the plural branch,
  \<open>_wordIn\<close> in the other. \<open>Pluralize2_items\<close> lists the items it streams, in order:
  the number, a space, the word and the ending in the plural branch, the number and
  \<open>_wordIn\<close> in the other.
\<close>

definition Pluralize2_word :: "cint \<Rightarrow> string \<Rightarrow> string" where
  "Pluralize2_word n wordIn =
     (if qAbs n \<noteq> 1 then
        (let word = wordIn;
             ending = ''s'';
             wordend = right_str word 2
         in if endsWith_chr wordend (CHR ''s'') \<or> wordend = ''sh''
            then word @ ''es''
            else if endsWith_chr wordend (CHR ''y'')
            then truncate_str word (int (length word) - 1) @ ''ies''
            else word @ ending)
      else wordIn)"

definition Pluralize2_items :: "cint \<Rightarrow> string \<Rightarrow> string list" where
  "Pluralize2_items n wordIn =
     (if qAbs n \<noteq> 1 then
        (let word = wordIn;
             ending = ''s'';
             wordend = right_str word 2
         in if endsWith_chr wordend (CHR ''s'') \<or> wordend = ''sh''
            then [show_int (sint n), '' '', word, ''es'']
            else if endsWith_chr wordend (CHR ''y'')
            then [show_int (sint n), '' '', truncate_str word (int (length word) - 1), ''ies'']
            else [show_int (sint n), '' '', word, ending])
      else [show_int (sint n), wordIn])"

text \<open>
  The rule in the specification's words: the input word when \<open>|n| = 1\<close>; otherwise
  suffix \<open>es\<close> after a final \<open>s\<close> or \<open>sh\<close>, a final \<open>y\<close> replaced by \<open>ies\<close>, else
  suffix \<open>s\<close>.
\<close>

definition ends_in :: "string \<Rightarrow> string \<Rightarrow> bool" where
  "ends_in w sfx = (take (length sfx) (rev w) = rev sfx)"

definition pluralize_spec :: "int \<Rightarrow> string \<Rightarrow> string" where
  "pluralize_spec n w =
     (if \<bar>n\<bar> = 1 then w
      else if ends_in w ''s'' \<or> ends_in w ''sh'' then w @ ''es''
      else if ends_in w ''y'' then butlast w @ ''ies''
      else w @ ''s'')"

section \<open>Log levels and the Debug and Trace gates (src/Util.cpp)\<close>

datatype level = Debug | Info | Warning | Critical | Fatal

text \<open>A log record: its level and the items streamed into it, in order.\<close>

datatype log_record = LogRec level "string list"

text \<open>
  The two option flags the gates read. \<open>app()\<close> may be null while the application object
  does not exist, so the application is an optional value.
\<close>

record verbosity =
  verboseDebug :: bool
  verboseTrace :: bool

definition Debug_isEnabled :: "verbosity option \<Rightarrow> bool" where
  "Debug_isEnabled ourApp =
     (case ourApp of None \<Rightarrow> True | Some opts \<Rightarrow> verboseDebug opts)"

definition Trace_isEnabled :: "verbosity option \<Rightarrow> bool" where
  "Trace_isEnabled ourApp =
     (case ourApp of None \<Rightarrow> False
      | Some opts \<Rightarrow> verboseTrace opts \<and> Debug_isEnabled ourApp)"

text \<open>
  \<open>Trace::~Trace\<close> and \<open>Debug::~Debug\<close>: \<open>doprt = isEnabled()\<close>, and when it holds
  the level is set and the text gets its tag. \<open>Log::~Log\<close> then hands a record to the
  logger only when \<open>doprt\<close> holds. The result is \<open>None\<close> when nothing is emitted, and
  otherwise the level and the tagged text as the destructor leaves them; the timestamp
  and the thread label that \<open>Log::~Log\<close> puts in front of the text are not part of it.
\<close>

definition Trace_dtor :: "verbosity option \<Rightarrow> string \<Rightarrow> log_record option" where
  "Trace_dtor ourApp str =
     (let doprt = Trace_isEnabled ourApp
      in if \<not> doprt then None else Some (LogRec Debug [''(Trace) '' @ str]))"

definition Debug_dtor :: "verbosity option \<Rightarrow> string \<Rightarrow> log_record option" where
  "Debug_dtor ourApp str =
     (let doprt = Debug_isEnabled ourApp
      in if \<not> doprt then None else Some (LogRec Debug [''(Debug) '' @ str]))"

section \<open>The signal handler (src/src/App.cpp, App::startup)\<close>

text \<open>
  The lambda \<open>gotsig\<close> installed for SIGINT, SIGTERM and SIGQUIT. Its static counter
  \<open>ct\<close> is the state; \<open>!ct++\<close> tests the old value and stores the incremented one, which
  the second test \<open>ct < 5\<close> then reads. The effects of one delivery are listed in order.
\<close>

datatype sig_effect =
    LogInfo "string list"
  | AppExit cint
  | Printf string
  | Abort

definition gotsig :: "cint \<Rightarrow> cint \<Rightarrow> cint \<times> sig_effect list" where
  "gotsig ct sig =
     (let old = ct; ct' = ct + 1
      in if old = 0 then
           (ct', [LogInfo [''Got signal: '', show_int (sint sig), '', exiting ...''],
                  AppExit sig])
         else if ct' <s 5 then
           (ct', [Printf (''Duplicate signal '' @ show_int (sint sig) @
                          '' already being handled, ignoring'' @ [CHR 0x0A])])
         else
           (ct', [Printf (''Signal '' @ show_int (sint sig) @
                          '' caught more than 5 times, aborting'' @ [CHR 0x0A]),
                  Abort]))"

text \<open>
  A sequence of deliveries: each runs the handler on the counter the previous one left.
  \<open>std::abort\<close> ends the process, so nothing is delivered after it. The result lists
  the effects of each delivery that took place.
\<close>

fun deliver :: "cint \<Rightarrow> cint list \<Rightarrow> sig_effect list list" where
  "deliver ct [] = []"
| "deliver ct (sig # sigs) =
     (case gotsig ct sig of
        (ct', effs) \<Rightarrow> if Abort \<in> set effs then [effs] else effs # deliver ct' sigs)"

fun is_exit :: "sig_effect \<Rightarrow> bool" where
  "is_exit (AppExit s) = True"
| "is_exit e = False"

text \<open>
  What the specification says of the \<open>i\<close>-th delivery (counted from 0): the first
  initiates shutdown with the signal's value, the second to fourth print a duplicate
  message, the fifth aborts.
\<close>

definition spec_delivery :: "nat \<Rightarrow> cint \<Rightarrow> sig_effect list" where
  "spec_delivery i sig =
     (if i = 0 then
        [LogInfo [''Got signal: '', show_int (sint sig), '', exiting ...''], AppExit sig]
      else if i < 4 then
        [Printf (''Duplicate signal '' @ show_int (sint sig) @
                 '' already being handled, ignoring'' @ [CHR 0x0A])]
      else
        [Printf (''Signal '' @ show_int (sint sig) @
                 '' caught more than 5 times, aborting'' @ [CHR 0x0A]), Abort])"

section \<open>The clock (src/Util.cpp, Util::getTime and Util::isClockSteady)\<close>

text \<open>
  A time point of \<open>std::chrono::high_resolution_clock\<close> is its tick count, taken in
  nanoseconds. \<open>getTime\<close> subtracts the start time \<open>t0\<close> from the reading \<open>now\<close> and
  converts to milliseconds with \<open>duration_cast\<close>, which truncates towards zero.
\<close>

type_synonym time_point = int

definition cxx_quot :: "int \<Rightarrow> int \<Rightarrow> int" where
  "cxx_quot a b =
     (if (a < 0) = (b < 0) then \<bar>a\<bar> div \<bar>b\<bar> else - (\<bar>a\<bar> div \<bar>b\<bar>))"

definition duration_cast_ms :: "int \<Rightarrow> int" where
  "duration_cast_ms ns = cxx_quot ns 1000000"

definition getTime :: "time_point \<Rightarrow> time_point \<Rightarrow> int" where
  "getTime t0 now = duration_cast_ms (now - t0)"

definition getTimeNS :: "time_point \<Rightarrow> time_point \<Rightarrow> int" where
  "getTimeNS t0 now = now - t0"

text \<open>
  The clock is the environment: \<open>is_steady\<close> is the constant the library reports, and
  two consecutive readings of a steady clock never decrease. A clock that is not steady
  promises nothing, as the start-up message of \<open>App::startup\<close> says.
\<close>

record hr_clock =
  is_steady :: bool

definition isClockSteady :: "hr_clock \<Rightarrow> bool" where
  "isClockSteady clk = is_steady clk"

definition consecutive_readings :: "hr_clock \<Rightarrow> time_point \<Rightarrow> time_point \<Rightarrow> bool" where
  "consecutive_readings clk n1 n2 = (if is_steady clk then n1 \<le> n2 else True)"

section \<open>Waiting for the thread pool at shutdown (src/src/App.cpp)\<close>

text \<open>
  \<open>App::cleanup_WaitForThreadPoolWorkers\<close>. The thread pool is the environment: what
  \<open>extantJobs()\<close> returns on entry, whether \<open>shutdownWaitForJobs\<close> reports the pool
  drained, how many jobs are extant when it returns, and what the elapsed timer reads
  then. The result is the timeout handed to \<open>shutdownWaitForJobs\<close> and the records logged.
  \<open>Util::Pluralize\<close> is declared in Util.h and is a parameter here.
\<close>

record pool_run =
  extantJobs_on_entry :: cint
  drained :: bool
  extantJobs_at_return :: cint
  elapsed_ms :: nat

text \<open>
  \<open>qRound(double(ms) / 1e3)\<close> for a non-negative count of milliseconds, and the same
  quotient printed with \<open>%0.3f\<close>.
\<close>

definition qRound_secs :: "nat \<Rightarrow> int" where
  "qRound_secs ms = int ((ms + 500) div 1000)"

definition show_secs3 :: "nat \<Rightarrow> string" where
  "show_secs3 ms =
     show_nat (ms div 1000) @ ''.'' @ show_nat (ms mod 1000 div 100) @
     show_nat (ms mod 100 div 10) @ show_nat (ms mod 10)"

definition cleanup_WaitForThreadPoolWorkers ::
  "(string \<Rightarrow> cint \<Rightarrow> string) \<Rightarrow> pool_run \<Rightarrow> int \<times> log_record list" where
  "cleanup_WaitForThreadPoolWorkers Pluralize pool =
     (let timeout = 5000;
          nJobs = extantJobs_on_entry pool;
          log1 = (if nJobs \<noteq> 0
                  then [LogRec Info [''Waiting for extant thread pool workers ...'']]
                  else []);
          res = drained pool
      in if \<not> res then
           (timeout, log1 @
              [LogRec Warning
                 [''After '' @ show_int (qRound_secs (elapsed_ms pool)) @ '' seconds, '' @
                  show_int (sint nJobs) @ '' thread pool '' @ Pluralize ''worker'' nJobs @
                  '' '' @ (if qAbs nJobs = 1 then ''is'' else ''are'') @
                  '' still active. App may abort with an error.'']])
         else if nJobs \<noteq> 0 then
           (timeout, log1 @
              [LogRec Debug
                 [''Successfully waited for '' @ show_int (sint nJobs) @ '' thread pool '' @
                  Pluralize ''worker'' nJobs @ '' (elapsed: '' @
                  show_secs3 (elapsed_ms pool) @ '' secs)'']])
         else (timeout, log1))"

section \<open>Cross-thread calls (src/Util.cpp, Util::LambdaOnObject)\<close>

text \<open>
  A \<open>VoidFunc\<close> is a \<open>std::function\<close>, which may be empty: an optional transformer of
  the world the job acts on. The threads are the environment: whether the caller runs on
  the target object's thread, whether that thread is running, and, for a functor queued
  on the target's event loop, three durations in microseconds: from the call until the
  event loop invokes the functor, the run time of the lambda, and from the lambda's
  return until the functor's \<open>put\<close> has reached the waiting caller.
\<close>

record call_env =
  objectName :: string
  on_target_thread :: bool
  target_running :: bool
  start_after :: nat
  lambda_takes :: nat
  put_after :: nat

text \<open>
  What a call leaves behind: the value returned; whether the lambda had started and had
  run to completion when the call returned; the world at that moment (a lambda still
  running has not changed it yet); and the world once a functor that got to run has
  finished.
\<close>

record 'w call_outcome =
  returned :: bool
  lambda_started :: bool
  lambda_completed :: bool
  world :: 'w
  world_final :: 'w
  debug_items :: "string list list"

text \<open>
  Modelled from the spec: \<open>VariantChannel\<close> is declared in Util.h, which is not among
  the sources. It is the single-shot channel of the specification: \<open>get\<close> yields the
  value that was put, and false when the timeout elapses with nothing put.
\<close>

definition chan_get :: "bool option \<Rightarrow> bool" where
  "chan_get chan = (case chan of Some v \<Rightarrow> v | None \<Rightarrow> False)"

text \<open>
  The functor handed to \<open>QTimer::singleShot\<close> runs on the target's thread in two steps,
  \<open>shared->lambda()\<close> and then \<open>shared->chan.put(true)\<close>, while the caller waits in
  \<open>chan.get(timeout_ms)\<close>. \<open>functor_progress\<close> is how far the functor has come when
  \<open>t\<close> microseconds have passed since the call: whether the lambda has started, whether
  it has returned, and the content of the channel.
\<close>

definition functor_progress :: "call_env \<Rightarrow> nat \<Rightarrow> bool \<times> bool \<times> bool option" where
  "functor_progress env t =
     (let t_invoked = start_after env;
          t_returned = t_invoked + lambda_takes env;
          t_put = t_returned + put_after env
      in (t_invoked < t, t_returned < t, if t_put < t then Some True else None))"

text \<open>
  \<open>LambdaOnObject\<close>. On the cross-thread path the caller's \<open>get\<close> returns true as soon
  as the put arrives, or false when \<open>timeout_ms\<close> have passed; returning destroys
  \<open>shared\<close>, so a functor invoked later finds \<open>weakShared\<close> expired and does nothing,
  while a functor that had already locked it runs to its end.
\<close>

definition LambdaOnObject ::
  "call_env \<Rightarrow> ('w \<Rightarrow> 'w) option \<Rightarrow> nat \<Rightarrow> 'w \<Rightarrow> 'w call_outcome" where
  "LambdaOnObject env lambda timeout_ms w =
     (case lambda of
        None \<Rightarrow>
          \<lparr>returned = True, lambda_started = False, lambda_completed = False,
           world = w, world_final = w,
           debug_items = [[''LambdaOnObject'', '': Target object: '', objectName env,
                           '' lambda is null. FIXME.'']]\<rparr>
      | Some f \<Rightarrow>
          if on_target_thread env then
            \<lparr>returned = True, lambda_started = True, lambda_completed = True,
             world = f w, world_final = f w, debug_items = []\<rparr>
          else if \<not> target_running env then
            \<lparr>returned = False, lambda_started = False, lambda_completed = False,
             world = w, world_final = w,
             debug_items = [[''LambdaOnObject'', '': Target object: '', objectName env,
               '' thread not running! Will return without calling lambda... FIXME.'']]\<rparr>
          else
            (case functor_progress env (1000 * timeout_ms) of
               (started, completed, chan) \<Rightarrow>
                 \<lparr>returned = chan_get chan,
                  lambda_started = started,
                  lambda_completed = completed,
                  world = (if completed then f w else w),
                  world_final = (if started then f w else w),
                  debug_items = []\<rparr>))"

section \<open>The stats HTTP endpoints (src/src/App.cpp)\<close>

datatype exn = BadArgs string | InternalError string | Exception string

fun what :: "exn \<Rightarrow> string" where
  "what (BadArgs m) = m"
| "what (InternalError m) = m"
| "what (Exception m) = m"

text \<open>
  A \<open>QVariant\<close> as the tree the controller returns; \<open>Invalid\<close> is the variant without
  a value, the only one for which \<open>isNull\<close> holds here.
\<close>

datatype QVariant =
    Invalid
  | VBool bool
  | VInt int
  | VString string
  | VList "QVariant list"
  | VMap "(string \<times> QVariant) list"

fun isNull :: "QVariant \<Rightarrow> bool" where
  "isNull Invalid = True"
| "isNull v = False"

record Response =
  contentType :: string
  data :: string

record Request =
  queryString :: string
  response :: Response

definition CRLF :: string where
  "CRLF = [CHR 0x0D, CHR 0x0A]"




text \<open>
  The two handlers registered by \<open>App::start_httpServer\<close>. \<open>Json::toUtf8\<close> (Json.h) and
  the controller's \<open>statsSafe\<close> and \<open>debugSafe\<close> (Controller.h) are not among the
  sources and are parameters; the serializer may throw. The result is the request as the
  handler leaves it and the exception that escapes, if any.
\<close>

definition respond_json ::
  "(QVariant \<Rightarrow> bool \<Rightarrow> exn + string) \<Rightarrow> QVariant \<Rightarrow> Request \<Rightarrow> Request \<times> exn option" where
  "respond_json toUtf8 stats0 req =
     (let stats = (if isNull stats0 then VList [Invalid] else stats0)
      in case toUtf8 stats False of
           Inl e \<Rightarrow> (req, Some e)
         | Inr bytes \<Rightarrow> (req\<lparr>response := (response req)\<lparr>data := bytes @ CRLF\<rparr>\<rparr>, None))"



subsection \<open>The serializer and well-formed JSON text\<close>












section \<open>Option resolution (src/src/App.cpp, App::parseArgs)\<close>

subsection \<open>The command-line parser and the config file\<close>

text \<open>
  A \<open>QCommandLineOption\<close> as \<open>parseArgs\<close> builds it: its names, the name of its value
  (empty for a flag) and its default values. The descriptions are left out.
\<close>

record QCommandLineOption =
  names :: "string list"
  valueName :: string
  defaultValues :: "string list"

definition option :: "string list \<Rightarrow> string \<Rightarrow> QCommandLineOption" where
  "option ns vn = \<lparr>names = ns, valueName = vn, defaultValues = []\<rparr>"

text \<open>
  The list \<open>allOptions\<close> of \<open>parseArgs\<close>. \<open>Options::defaultPollTimeSecs\<close> (Options.h)
  and the registered tests and benches are not in the sources: the default of \<open>-T\<close> and
  the presence of \<open>--test\<close> and \<open>--bench\<close> are parameters.
\<close>

definition allOptions :: "string \<Rightarrow> bool \<Rightarrow> bool \<Rightarrow> QCommandLineOption list" where
  "allOptions defaultPollTime haveTests haveBenches =
     [option [''D'', ''datadir''] ''path'',
      option [''t'', ''tcp''] ''interface:port'',
      option [''s'', ''ssl''] ''interface:port'',
      option [''w'', ''ws''] ''interface:port'',
      option [''W'', ''wss''] ''interface:port'',
      option [''c'', ''cert''] ''crtfile'',
      option [''k'', ''key''] ''keyfile'',
      option [''wss-cert''] ''crtfile'',
      option [''wss-key''] ''keyfile'',
      option [''a'', ''admin''] ''[interface:]port'',
      option [''z'', ''stats''] ''[interface:]port'',
      option [''b'', ''bitcoind''] ''hostname:port'',
      option [''bitcoind-tls''] [],
      option [''u'', ''rpcuser''] ''username'',
      option [''p'', ''rpcpassword''] ''password'',
      option [''d'', ''debug''] [],
      option [''q'', ''quiet''] [],
      option [''S'', ''syslog''] [],
      option [''C'', ''checkdb''] [],
      \<lparr>names = [''T'', ''polltime''], valueName = ''polltime'',
       defaultValues = [defaultPollTime]\<rparr>,
      option [''ts-format''] ''keyword'',
      option [''tls-disallow-deprecated''] [],
      option [''dump-sh''] ''outputfile'']
     @ (if haveTests then [option [''test''] ''test''] else [])
     @ (if haveBenches then [option [''bench''] ''benchmark''] else [])"

text \<open>
  The state of the \<open>QCommandLineParser\<close> after \<open>process\<close>: the options added to it, the
  option names found on the command line as they were typed, each value found with the
  name it was given under, and the positional arguments. \<open>isSet\<close>, \<open>values\<close> and
  \<open>value\<close> treat the names of one option as aliases.
\<close>

record QCommandLineParser =
  optionList :: "QCommandLineOption list"
  optionNames :: "string list"
  optionValues :: "(string \<times> string) list"
  positionalArguments :: "string list"

definition find_option :: "QCommandLineParser \<Rightarrow> string \<Rightarrow> QCommandLineOption option" where
  "find_option parser name = find (\<lambda>opt. name \<in> set (names opt)) (optionList parser)"

definition aliases :: "QCommandLineParser \<Rightarrow> string \<Rightarrow> string list" where
  "aliases parser name =
     (case find_option parser name of None \<Rightarrow> [] | Some opt \<Rightarrow> names opt)"

definition parser_isSet :: "QCommandLineParser \<Rightarrow> string \<Rightarrow> bool" where
  "parser_isSet parser name =
     (name \<in> set (optionNames parser) \<or>
      (\<exists>optionName \<in> set (optionNames parser). optionName \<in> set (aliases parser name)))"

definition parser_values :: "QCommandLineParser \<Rightarrow> string \<Rightarrow> string list" where
  "parser_values parser name =
     (case find_option parser name of
        None \<Rightarrow> []
      | Some opt \<Rightarrow>
          (let found = map snd (filter (\<lambda>nv. fst nv \<in> set (names opt)) (optionValues parser))
           in if found = [] then defaultValues opt else found))"

definition parser_value :: "QCommandLineParser \<Rightarrow> string \<Rightarrow> string" where
  "parser_value parser name =
     (case parser_values parser name of [] \<Rightarrow> [] | v # vs \<Rightarrow> last (v # vs))"

text \<open>
  Modelled from the spec: \<open>ConfigFile\<close> (ConfigFile.h) is not among the sources. The
  file is a sequence of \<open>key = value\<close> lines, a repeated key yields a list, and a boolean
  value is true for \<open>yes\<close>, \<open>true\<close>, \<open>on\<close>, \<open>1\<close> and the empty value. \<open>value\<close> takes a
  default that it returns when the key is absent.
\<close>

type_synonym ConfigFile = "(string \<times> string) list"

definition conf_values :: "ConfigFile \<Rightarrow> string \<Rightarrow> string list" where
  "conf_values conf name = map snd (filter (\<lambda>kv. fst kv = name) conf)"

definition conf_hasValue :: "ConfigFile \<Rightarrow> string \<Rightarrow> bool" where
  "conf_hasValue conf name = (conf_values conf name \<noteq> [])"

definition conf_value :: "ConfigFile \<Rightarrow> string \<Rightarrow> string \<Rightarrow> string" where
  "conf_value conf name def = (case conf_values conf name of [] \<Rightarrow> def | v # vs \<Rightarrow> v)"

definition conf_boolValue :: "ConfigFile \<Rightarrow> string \<Rightarrow> bool" where
  "conf_boolValue conf name =
     (case conf_values conf name of
        [] \<Rightarrow> False
      | v # vs \<Rightarrow> v \<in> set [''yes'', ''true'', ''on'', ''1'', []])"

definition conf_remove :: "ConfigFile \<Rightarrow> string \<Rightarrow> ConfigFile" where
  "conf_remove conf name = filter (\<lambda>kv. fst kv \<noteq> name) conf"

subsection \<open>Warning about options given twice\<close>

text \<open>
  The loop that opens option resolution: for every name of every option in
  \<open>allOptions\<close> that is not a single character, when the config file has the key and
  the parser has the option set, \<open>DupeMsg\<close> is logged and the key is removed from the
  config file. (With \<open>--test\<close> or \<open>--bench\<close> on the command line \<open>parseArgs\<close> runs
  the registered hooks and exits before it reaches this loop.)
\<close>

definition DupeMsg :: "string \<Rightarrow> log_record" where
  "DupeMsg arg =
     LogRec Info
       [[CHR 0x27], arg,
        CHR 0x27 # '' specified both via the CLI and the configuration file. The CLI arg will take precedence.'']"

fun warn_dupes_names ::
  "QCommandLineParser \<Rightarrow> string list \<Rightarrow> ConfigFile \<times> log_record list \<Rightarrow>
   ConfigFile \<times> log_record list" where
  "warn_dupes_names parser [] st = st"
| "warn_dupes_names parser (name # rest) (conf, logged) =
     (if length name = 1 then warn_dupes_names parser rest (conf, logged)
      else if conf_hasValue conf name \<and> parser_isSet parser name
      then warn_dupes_names parser rest (conf_remove conf name, logged @ [DupeMsg name])
      else warn_dupes_names parser rest (conf, logged))"

fun warn_dupes ::
  "QCommandLineParser \<Rightarrow> QCommandLineOption list \<Rightarrow> ConfigFile \<times> log_record list \<Rightarrow>
   ConfigFile \<times> log_record list" where
  "warn_dupes parser [] st = st"
| "warn_dupes parser (opt # opts) st =
     warn_dupes parser opts (warn_dupes_names parser (names opt) st)"

text \<open>
  The three ways \<open>parseArgs\<close> then reads an option that has both a CLI form and a config
  key: a single value (\<open>conf.value(key, parser.value(s))\<close>), a list
  (\<open>conf.hasValue(key) ? conf.values(key) : parser.values(s)\<close>) and a flag
  (\<open>parser.isSet(s) || conf.boolValue(key)\<close>).
\<close>

definition resolve_value :: "QCommandLineParser \<Rightarrow> ConfigFile \<Rightarrow> string \<Rightarrow> string \<Rightarrow> string" where
  "resolve_value parser conf key s = conf_value conf key (parser_value parser s)"

definition resolve_values ::
  "QCommandLineParser \<Rightarrow> ConfigFile \<Rightarrow> string \<Rightarrow> string \<Rightarrow> string list" where
  "resolve_values parser conf key s =
     (if conf_hasValue conf key then conf_values conf key else parser_values parser s)"

definition resolve_flag :: "QCommandLineParser \<Rightarrow> ConfigFile \<Rightarrow> string \<Rightarrow> string \<Rightarrow> bool" where
  "resolve_flag parser conf key s = (parser_isSet parser s \<or> conf_boolValue conf key)"

subsection \<open>The poll time\<close>

text \<open>
  A C++ \<open>double\<close>: a real number, an infinity or a NaN. Comparisons with a NaN are
  false. Rounding plays no part below: the bounds 0.5 and 30 are exact.
\<close>

datatype double = Finite real | PlusInf | MinusInf | NaN

fun dless :: "double \<Rightarrow> double \<Rightarrow> bool" where
  "dless NaN y = False"
| "dless x NaN = False"
| "dless (Finite a) (Finite b) = (a < b)"
| "dless (Finite a) PlusInf = True"
| "dless (Finite a) MinusInf = False"
| "dless PlusInf y = False"
| "dless MinusInf MinusInf = False"
| "dless MinusInf y = True"

definition dgreater :: "double \<Rightarrow> double \<Rightarrow> bool" where
  "dgreater x y = dless y x"

text \<open>
  \<open>Options::minPollTimeSecs\<close> and \<open>Options::maxPollTimeSecs\<close> are declared in Options.h,
  which is not among the sources; the help text of \<open>-T\<close> in \<open>parseArgs\<close> gives them:
  at least 0.5, at most 30.
\<close>

definition minPollTimeSecs :: double where
  "minPollTimeSecs = Finite 0.5"

definition maxPollTimeSecs :: double where
  "maxPollTimeSecs = Finite 30"

text \<open>
  \<open>QString::toDouble(&ok)\<close> is Qt's and is a parameter: it returns the value and the
  flag \<open>ok\<close>. \<open>polltime_check\<close> is the test \<open>parseArgs\<close> applies to that pair, in the
  order it is written: the value is stored, compared with the minimum, then \<open>ok\<close> is
  read, then the value is compared with the maximum.
\<close>

definition polltime_check :: "double \<times> bool \<Rightarrow> exn + double" where
  "polltime_check parsed =
     (let pollTimeSecs = fst parsed; ok = snd parsed
      in if dless pollTimeSecs minPollTimeSecs \<or> \<not> ok \<or> dgreater pollTimeSecs maxPollTimeSecs
         then Inl (BadArgs (''The '' @ [CHR 0x27] @ ''polltime'' @ [CHR 0x27] @
                            '' option must be a numeric value in the range [0.5, 30]''))
         else Inr pollTimeSecs)"

definition parseArgs_polltime ::
  "(string \<Rightarrow> double \<times> bool) \<Rightarrow> QCommandLineParser \<Rightarrow> ConfigFile \<Rightarrow> exn + double" where
  "parseArgs_polltime toDouble parser conf =
     (let polltimeStr = conf_value conf ''polltime'' (parser_value parser ''T'')
      in polltime_check (toDouble polltimeStr))"

text \<open>What the specification asks of a resolved poll time: a number in \<open>[0.5, 30.0]\<close>.\<close>

fun in_polltime_range :: "double \<Rightarrow> bool" where
  "in_polltime_range (Finite r) = (0.5 \<le> r \<and> r \<le> 30)"
| "in_polltime_range d = False"

subsection \<open>Certificates and keys\<close>




subsection \<open>Option resolution up to the certificates\<close>


















subsection \<open>The end-to-end scenarios of the specification\<close>



subsection \<open>The constructor's handling of a failed resolution\<close>

text \<open>
  \<open>App::App\<close> runs \<open>parseArgs\<close> inside a try block: an exception is printed at critical
  level, followed by a hint, and the process exits with code 1; \<open>startup\<close>, which opens
  the listeners, is scheduled only after \<open>parseArgs\<close> has returned. The result is the
  exit code with the two records, or the resolved options.
\<close>

definition App_ctor :: "exn + 'o \<Rightarrow> (int \<times> log_record list) + 'o" where
  "App_ctor parsed =
     (case parsed of
        Inl e \<Rightarrow> Inl (1, [LogRec Critical [what e],
                          LogRec Info [''Use the -h option to show help.'']])
      | Inr opts \<Rightarrow> Inr opts)"

section \<open>Proofs: Pluralize2\<close>

lemma qAbs_one_iff: "qAbs n = 1 \<longleftrightarrow> \<bar>sint n\<bar> = 1"
proof
  assume h: "qAbs n = 1"
  show "\<bar>sint n\<bar> = 1"
  proof (cases "0 \<le>s n")
    case True
    with h have "n = 1" by (simp add: qAbs_def)
    then show ?thesis by simp
  next
    case False
    with h have "- n = 1" by (simp add: qAbs_def)
    then have "n = - 1" by (metis minus_minus)
    then show ?thesis by simp
  qed
next
  assume h: "\<bar>sint n\<bar> = 1"
  then consider "sint n = 1" | "sint n = - 1" by linarith
  then show "qAbs n = 1"
  proof cases
    case 1
    then have "word_of_int (sint n) = (word_of_int 1 :: cint)" by simp
    then have "n = 1" by simp
    then show ?thesis by (simp add: qAbs_def word_sle_eq)
  next
    case 2
    then have "word_of_int (sint n) = (word_of_int (- 1) :: cint)" by simp
    then have "n = - 1" by simp
    then show ?thesis by (simp add: qAbs_def word_sle_eq)
  qed
qed

lemma ends_in_iff: "ends_in w sfx \<longleftrightarrow> (\<exists>pre. w = pre @ sfx)"
proof
  assume "ends_in w sfx"
  then have "take (length sfx) (rev w) = rev sfx" by (simp add: ends_in_def)
  then have "rev w = rev sfx @ drop (length sfx) (rev w)"
    by (metis append_take_drop_id)
  then have "w = rev (drop (length sfx) (rev w)) @ sfx"
    by (metis rev_append rev_rev_ident)
  then show "\<exists>pre. w = pre @ sfx" by blast
next
  assume "\<exists>pre. w = pre @ sfx"
  then show "ends_in w sfx" by (auto simp: ends_in_def)
qed

lemma right2_ends_s: "endsWith_chr (right_str w 2) c \<longleftrightarrow> ends_in w [c]"
proof -
  have a: "right_str w 2 \<noteq> [] \<longleftrightarrow> w \<noteq> []"
    by (auto simp: right_str_def)
  have b: "w \<noteq> [] \<Longrightarrow> last (right_str w 2) = last w"
    by (auto simp: right_str_def last_drop)
  have c: "ends_in w [c] \<longleftrightarrow> w \<noteq> [] \<and> last w = c"
    unfolding ends_in_iff
    by (metis last_snoc snoc_eq_iff_butlast)
  show ?thesis
    unfolding endsWith_chr_def using a b c by auto
qed

lemma right2_is_sh: "right_str w 2 = ''sh'' \<longleftrightarrow> ends_in w ''sh''"
proof
  assume h: "right_str w 2 = ''sh''"
  show "ends_in w ''sh''"
  proof (cases "2 \<ge> length w")
    case True
    with h have "w = ''sh''" by (simp add: right_str_def)
    then show ?thesis by (simp add: ends_in_def)
  next
    case False
    with h have "drop (length w - 2) w = ''sh''" by (simp add: right_str_def)
    then have "w = take (length w - 2) w @ ''sh''"
      by (metis append_take_drop_id)
    then show ?thesis unfolding ends_in_iff by blast
  qed
next
  assume "ends_in w ''sh''"
  then obtain pre where w: "w = pre @ ''sh''" unfolding ends_in_iff by blast
  show "right_str w 2 = ''sh''"
    by (simp add: w right_str_def)
qed

lemma truncate_last: "truncate_str w (int (length w) - 1) = butlast w"
proof (cases "w = []")
  case True
  then show ?thesis by (simp add: truncate_str_def)
next
  case False
  then have "nat (int (length w) - 1) = length w - 1" by simp
  with False show ?thesis by (simp add: truncate_str_def butlast_conv_take)
qed

text \<open>
  Claim C9. For every integer \<open>n\<close> and word \<open>w\<close>, the word streamed by the Pluralize2
  operator is the one the specification describes: \<open>w\<close> itself when \<open>|n| = 1\<close>;
  otherwise \<open>w\<close> with \<open>es\<close> appended when it ends in \<open>s\<close> or \<open>sh\<close>, \<open>w\<close> with its final
  \<open>y\<close> replaced by \<open>ies\<close> when it ends in \<open>y\<close>, and \<open>w\<close> with \<open>s\<close> appended in every
  other case.
\<close>

theorem Pluralize2_word_meets_spec:
  "Pluralize2_word n w = pluralize_spec (sint n) w"
  unfolding Pluralize2_word_def pluralize_spec_def Let_def
  by (simp add: qAbs_one_iff right2_ends_s right2_is_sh truncate_last)

theorem Pluralize2_word_meets_spec_witness:
  "Pluralize2_word 2 ''entry'' = ''entries'' \<and> Pluralize2_word (- 1) ''entry'' = ''entry'' \<and>
   Pluralize2_word 0 ''bus'' = ''buses'' \<and> Pluralize2_word 5 ''dish'' = ''dishes'' \<and>
   Pluralize2_word 3 ''worker'' = ''workers''"
  using Pluralize2_word_meets_spec [of 2 "''entry''"]
        Pluralize2_word_meets_spec [of "- 1" "''entry''"]
        Pluralize2_word_meets_spec [of 0 "''bus''"]
        Pluralize2_word_meets_spec [of 5 "''dish''"]
        Pluralize2_word_meets_spec [of 3 "''worker''"]
  by (simp add: pluralize_spec_def ends_in_def)

section \<open>Proofs: the Debug and Trace gates\<close>

text \<open>
  Claim C10. Trace logging is enabled only when the application exists, its
  \<open>verboseTrace\<close> option holds and debug logging is enabled; hence no Trace record is
  emitted while debug output is disabled.
\<close>

theorem Trace_enabled_only_with_Debug:
  "(Trace_isEnabled ourApp \<longrightarrow>
      (\<exists>opts. ourApp = Some opts \<and> verboseTrace opts) \<and> Debug_isEnabled ourApp) \<and>
   (\<not> Debug_isEnabled ourApp \<longrightarrow> Trace_dtor ourApp str = None)"
  by (auto simp: Trace_isEnabled_def Trace_dtor_def split: option.splits)

theorem Trace_enabled_only_with_Debug_witness:
  "Trace_isEnabled (Some \<lparr>verboseDebug = True, verboseTrace = True\<rparr>) \<and>
   Debug_isEnabled (Some \<lparr>verboseDebug = True, verboseTrace = True\<rparr>) \<and>
   \<not> Debug_isEnabled (Some \<lparr>verboseDebug = False, verboseTrace = True\<rparr>) \<and>
   Trace_dtor (Some \<lparr>verboseDebug = False, verboseTrace = True\<rparr>) ''x'' = None"
  using Trace_enabled_only_with_Debug [of "Some \<lparr>verboseDebug = True, verboseTrace = True\<rparr>" "''x''"]
        Trace_enabled_only_with_Debug [of "Some \<lparr>verboseDebug = False, verboseTrace = True\<rparr>" "''x''"]
  by (simp add: Trace_isEnabled_def Debug_isEnabled_def)

section \<open>Proofs: the signal handler\<close>

lemma gotsig_small:
  "k < 5 \<Longrightarrow> gotsig (of_nat k) sig = (of_nat (Suc k), spec_delivery k sig)"
proof -
  assume "k < 5"
  then consider "k = 0" | "k = 1" | "k = 2" | "k = 3" | "k = 4" by linarith
  then show ?thesis
    by cases (simp_all add: gotsig_def spec_delivery_def Let_def word_sless_alt)
qed

lemma abort_in_spec: "Abort \<in> set (spec_delivery k sig) \<longleftrightarrow> 4 \<le> k"
  by (auto simp: spec_delivery_def)

lemma exit_in_spec: "filter is_exit (spec_delivery k sig) = (if k = 0 then [AppExit sig] else [])"
  by (simp add: spec_delivery_def)

lemma deliver_from:
  "k < 5 \<Longrightarrow> deliver (of_nat k) sigs = map (\<lambda>(i, s). spec_delivery i s) (zip [k..<5] sigs)"
proof (induction sigs arbitrary: k)
  case Nil
  then show ?case by simp
next
  case (Cons sig sigs)
  have up: "[k..<5] = k # [Suc k..<5]" using Cons.prems by (simp add: upt_conv_Cons)
  show ?case
  proof (cases "k = 4")
    case True
    then show ?thesis
      using gotsig_small [of 4 sig] by (simp add: abort_in_spec)
  next
    case False
    with Cons.prems have "Suc k < 5" by simp
    then have "deliver (of_nat (Suc k)) sigs = map (\<lambda>(i, s). spec_delivery i s) (zip [Suc k..<5] sigs)"
      by (rule Cons.IH)
    then show ?thesis
      using gotsig_small [OF Cons.prems, of sig] False Cons.prems
      by (simp add: abort_in_spec up del: of_nat_Suc)
  qed
qed

lemma no_exit_later:
  "0 < k \<Longrightarrow> filter is_exit (concat (map (\<lambda>(i, s). spec_delivery i s) (zip [k..<m] sigs))) = []"
proof -
  assume k: "0 < k"
  have "\<And>p. p \<in> set (zip [k..<m] sigs) \<Longrightarrow> filter is_exit (case p of (i, s) \<Rightarrow> spec_delivery i s) = []"
  proof -
    fix p assume "p \<in> set (zip [k..<m] sigs)"
    then have "fst p \<in> set [k..<m]" by (metis in_set_zipE prod.collapse)
    then have "fst p \<noteq> 0" using k by simp
    then show "filter is_exit (case p of (i, s) \<Rightarrow> spec_delivery i s) = []"
      by (cases p) (simp add: exit_in_spec)
  qed
  then show ?thesis
    by (induction "zip [k..<m] sigs") (auto simp: filter_concat)
qed

text \<open>
  Claim C4. For every sequence of signal deliveries, starting from the counter's initial
  value 0: the first delivery logs and calls \<open>exit\<close> with the signal's value, the
  second, third and fourth only print the duplicate-signal message, the fifth prints and
  aborts, and nothing is delivered after that. Over the whole sequence \<open>exit\<close> is
  called exactly once, by the first delivery.
\<close>

theorem gotsig_deliveries_follow_spec:
  "deliver 0 sigs = map (\<lambda>(i, s). spec_delivery i s) (zip [0..<5] sigs) \<and>
   length (deliver 0 sigs) = min 5 (length sigs) \<and>
   filter is_exit (concat (deliver 0 sigs)) = (case sigs of [] \<Rightarrow> [] | s # _ \<Rightarrow> [AppExit s])"
proof -
  have d: "deliver 0 sigs = map (\<lambda>(i, s). spec_delivery i s) (zip [0..<5] sigs)"
    using deliver_from [of 0 sigs] by simp
  have l: "length (deliver 0 sigs) = min 5 (length sigs)"
    unfolding d by simp
  have e: "filter is_exit (concat (deliver 0 sigs)) = (case sigs of [] \<Rightarrow> [] | s # _ \<Rightarrow> [AppExit s])"
  proof (cases sigs)
    case Nil
    then show ?thesis by simp
  next
    case (Cons s rest)
    have up: "[0..<5] = 0 # [Suc 0..<5]" by (simp add: upt_conv_Cons)
    have "deliver 0 sigs = spec_delivery 0 s # map (\<lambda>(i, s). spec_delivery i s) (zip [Suc 0..<5] rest)"
      using d by (simp add: Cons up)
    then show ?thesis
      using no_exit_later [of "Suc 0" 5 rest]
      by (simp add: exit_in_spec Cons)
  qed
  from d l e show ?thesis by blast
qed

theorem gotsig_deliveries_follow_spec_witness:
  "deliver 0 [2, 15, 2, 3, 2, 2] =
     [[LogInfo [''Got signal: '', ''2'', '', exiting ...''], AppExit 2],
      [Printf (''Duplicate signal 15 already being handled, ignoring'' @ [CHR 0x0A])],
      [Printf (''Duplicate signal 2 already being handled, ignoring'' @ [CHR 0x0A])],
      [Printf (''Duplicate signal 3 already being handled, ignoring'' @ [CHR 0x0A])],
      [Printf (''Signal 2 caught more than 5 times, aborting'' @ [CHR 0x0A]), Abort]]"
proof -
  have "deliver 0 [2, 15, 2, 3, 2, 2] =
        map (\<lambda>(i, s). spec_delivery i s) (zip [0..<5] [2, 15, 2, 3, 2, 2])"
    using gotsig_deliveries_follow_spec [of "[2, 15, 2, 3, 2, 2]"] by blast
  also have "\<dots> =
     [[LogInfo [''Got signal: '', ''2'', '', exiting ...''], AppExit 2],
      [Printf (''Duplicate signal 15 already being handled, ignoring'' @ [CHR 0x0A])],
      [Printf (''Duplicate signal 2 already being handled, ignoring'' @ [CHR 0x0A])],
      [Printf (''Duplicate signal 3 already being handled, ignoring'' @ [CHR 0x0A])],
      [Printf (''Signal 2 caught more than 5 times, aborting'' @ [CHR 0x0A]), Abort]]"
    by (simp add: upt_conv_Cons spec_delivery_def show_int_def show_nat.simps)
  finally show ?thesis .
qed

section \<open>Proofs: the clock\<close>

lemma cxx_quot_ms:
  "cxx_quot x 1000000 = (if 0 \<le> x then x div 1000000 else - ((- x) div 1000000))"
  by (simp add: cxx_quot_def)

lemma duration_cast_ms_mono: "x \<le> y \<Longrightarrow> duration_cast_ms x \<le> duration_cast_ms y"
proof -
  assume xy: "x \<le> y"
  have pos: "\<And>a::int. 0 \<le> a \<Longrightarrow> 0 \<le> a div 1000000" by simp
  show ?thesis
  proof (cases "0 \<le> x")
    case True
    with xy have "0 \<le> y" by simp
    with True xy show ?thesis
      by (simp add: duration_cast_ms_def cxx_quot_ms zdiv_mono1)
  next
    case False
    show ?thesis
    proof (cases "0 \<le> y")
      case True
      have "0 \<le> (- x) div 1000000" using False by (intro pos) simp
      moreover have "0 \<le> y div 1000000" using True by (rule pos)
      ultimately show ?thesis using False True
        by (simp add: duration_cast_ms_def cxx_quot_ms)
    next
      case F2: False
      have "(- y) div 1000000 \<le> (- x) div 1000000"
        using xy by (intro zdiv_mono1) simp_all
      then show ?thesis using False F2
        by (simp add: duration_cast_ms_def cxx_quot_ms)
    qed
  qed
qed

lemma duration_cast_ms_strict:
  "0 \<le> x \<Longrightarrow> x + 1000000 \<le> y \<Longrightarrow> duration_cast_ms x < duration_cast_ms y"
proof -
  assume x: "0 \<le> x" and xy: "x + 1000000 \<le> y"
  have "(x + 1000000) div 1000000 \<le> y div 1000000"
    using xy by (intro zdiv_mono1) simp_all
  moreover have "(x + 1000000) div 1000000 = x div 1000000 + 1" by simp
  ultimately show ?thesis using x xy
    by (simp add: duration_cast_ms_def cxx_quot_ms)
qed

text \<open>
  Claim C5, as stated, fails. On a steady clock two readings 100 ns and 200 ns after the
  start both convert to 0 ms, so the second result is not strictly greater; and a clock
  that is not steady may step back, after which the second result is smaller.
\<close>

theorem getTime_not_strict_counterexample:
  "isClockSteady \<lparr>is_steady = True\<rparr> \<and>
   consecutive_readings \<lparr>is_steady = True\<rparr> 100 200 \<and>
   \<not> getTime 0 100 < getTime 0 200 \<and>
   \<not> isClockSteady \<lparr>is_steady = False\<rparr> \<and>
   consecutive_readings \<lparr>is_steady = False\<rparr> 5000000 1000000 \<and>
   \<not> getTime 0 5000000 \<le> getTime 0 1000000"
  by (simp add: isClockSteady_def consecutive_readings_def getTime_def duration_cast_ms_def cxx_quot_def)

lemma div_bucket:
  "0 \<le> k \<Longrightarrow> k * 1000000 \<le> d \<Longrightarrow> d < (k + 1) * 1000000 \<Longrightarrow> d div 1000000 = (k::int)"
proof -
  assume k: "0 \<le> k" and lo: "k * 1000000 \<le> d" and hi: "d < (k + 1) * 1000000"
  have "d = 1000000 * k + (d - k * 1000000)" by simp
  moreover have "0 \<le> d - k * 1000000" using lo by simp
  moreover have "d - k * 1000000 < 1000000" using hi by (simp add: algebra_simps)
  ultimately show ?thesis by (metis int_div_pos_eq)
qed

lemma getTime_bucket:
  "0 \<le> k \<Longrightarrow> t0 + k * 1000000 \<le> n \<Longrightarrow> n < t0 + (k + 1) * 1000000 \<Longrightarrow> getTime t0 n = k"
proof -
  assume k: "0 \<le> k" and lo: "t0 + k * 1000000 \<le> n" and hi: "n < t0 + (k + 1) * 1000000"
  have nn: "0 \<le> n - t0"
  proof -
    have "0 \<le> k * 1000000" using k by simp
    with lo show ?thesis by linarith
  qed
  have "(n - t0) div 1000000 = k"
    using k lo hi by (intro div_bucket) (simp_all add: algebra_simps)
  with nn show ?thesis
    by (simp add: getTime_def duration_cast_ms_def cxx_quot_ms)
qed

text \<open>
  Claim C5, amended. When the steady-clock query reports true, two consecutive calls to
  the millisecond clock return non-decreasing values; the second is strictly greater
  when both readings are taken at or after the start time and are at least one
  millisecond (1000000 ticks) apart; and when both readings fall in the \<open>k\<close>-th whole
  millisecond after the start time, both calls return \<open>k\<close>, so the results are equal.
\<close>

theorem getTime_monotone_on_steady_clock:
  "isClockSteady clk \<Longrightarrow> consecutive_readings clk n1 n2 \<Longrightarrow>
     getTime t0 n1 \<le> getTime t0 n2 \<and>
     (t0 \<le> n1 \<and> n1 + 1000000 \<le> n2 \<longrightarrow> getTime t0 n1 < getTime t0 n2) \<and>
     (0 \<le> k \<and> t0 + k * 1000000 \<le> n1 \<and> n2 < t0 + (k + 1) * 1000000 \<longrightarrow>
        getTime t0 n1 = k \<and> getTime t0 n2 = k)"
proof -
  assume "isClockSteady clk" and "consecutive_readings clk n1 n2"
  then have le: "n1 \<le> n2" by (simp add: isClockSteady_def consecutive_readings_def)
  have a: "getTime t0 n1 \<le> getTime t0 n2"
    unfolding getTime_def using le duration_cast_ms_mono [of "n1 - t0" "n2 - t0"] by simp
  have b: "t0 \<le> n1 \<and> n1 + 1000000 \<le> n2 \<longrightarrow> getTime t0 n1 < getTime t0 n2"
    unfolding getTime_def using duration_cast_ms_strict [of "n1 - t0" "n2 - t0"] by simp
  have c: "0 \<le> k \<and> t0 + k * 1000000 \<le> n1 \<and> n2 < t0 + (k + 1) * 1000000 \<longrightarrow>
        getTime t0 n1 = k \<and> getTime t0 n2 = k"
  proof (intro impI conjI)
    assume h: "0 \<le> k \<and> t0 + k * 1000000 \<le> n1 \<and> n2 < t0 + (k + 1) * 1000000"
    show "getTime t0 n1 = k" using h le by (intro getTime_bucket) auto
    show "getTime t0 n2 = k" using h le by (intro getTime_bucket) auto
  qed
  from a b c show ?thesis by blast
qed

theorem getTime_monotone_on_steady_clock_witness:
  "isClockSteady \<lparr>is_steady = True\<rparr> \<and>
   consecutive_readings \<lparr>is_steady = True\<rparr> 100 2000100 \<and>
   getTime 0 100 \<le> getTime 0 2000100 \<and> getTime 0 100 < getTime 0 2000100 \<and>
   consecutive_readings \<lparr>is_steady = True\<rparr> 3000100 3999999 \<and>
   getTime 0 3000100 = 3 \<and> getTime 0 3999999 = 3"
  using getTime_monotone_on_steady_clock [of "\<lparr>is_steady = True\<rparr>" 100 2000100 0 0]
        getTime_monotone_on_steady_clock [of "\<lparr>is_steady = True\<rparr>" 3000100 3999999 0 3]
  by (simp add: isClockSteady_def consecutive_readings_def)

section \<open>Proofs: waiting for the thread pool\<close>

lemma cleanup_ignores_remaining:
  "cleanup_WaitForThreadPoolWorkers Pluralize (pool\<lparr>extantJobs_at_return := k\<rparr>) =
   cleanup_WaitForThreadPoolWorkers Pluralize pool"
  by (simp add: cleanup_WaitForThreadPoolWorkers_def Let_def)


text \<open>
  Claim C8. The wait is bounded by 5000 ms, and a warning is logged when the pool did not
  drain. The count in that warning is the one read before the wait began: with 10 jobs
  extant on entry and 3 still extant when the wait times out, the warning says 10.
\<close>

theorem cleanup_warning_reports_entry_count:
  "cleanup_WaitForThreadPoolWorkers Pluralize
     \<lparr>extantJobs_on_entry = 10, drained = False, extantJobs_at_return = 3, elapsed_ms = 5000\<rparr> =
   (5000,
    [LogRec Info [''Waiting for extant thread pool workers ...''],
     LogRec Warning
       [''After 5 seconds, 10 thread pool '' @ Pluralize ''worker'' 10 @
        '' are still active. App may abort with an error.'']])"
  by (simp add: cleanup_WaitForThreadPoolWorkers_def Let_def qRound_secs_def show_int_def
      show_nat.simps qAbs_def)

theorem cleanup_warning_reports_entry_count_witness:
  "cleanup_WaitForThreadPoolWorkers (\<lambda>w n. if qAbs n = 1 then w else w @ ''s'')
     \<lparr>extantJobs_on_entry = 10, drained = False, extantJobs_at_return = 3, elapsed_ms = 5000\<rparr> =
   (5000,
    [LogRec Info [''Waiting for extant thread pool workers ...''],
     LogRec Warning
       [''After 5 seconds, 10 thread pool workers are still active. App may abort with an error.'']])"
  using cleanup_warning_reports_entry_count [of "\<lambda>w n. if qAbs n = 1 then w else w @ ''s''"]
  by (simp add: qAbs_def)

section \<open>Proofs: cross-thread calls\<close>

lemma functor_progress_order:
  "functor_progress env t = (started, completed, chan) \<Longrightarrow>
     (chan_get chan \<longrightarrow> completed) \<and> (completed \<longrightarrow> started)"
  by (auto simp: functor_progress_def Let_def chan_get_def split: if_splits)

text \<open>
  Claim C6, as stated, fails in two ways. For an empty job \<open>LambdaOnObject\<close> returns
  true although nothing ran, also when the target's thread is not running. And on the
  cross-thread path a job that has run to completion before the timeout still leaves
  the caller with false when the timeout passes between the lambda's return and the
  arrival of the put: here the functor is invoked after 1 ms, the lambda runs for 2 ms,
  the put arrives 1.5 ms later, and the timeout is 4 ms.
\<close>

theorem LambdaOnObject_null_job_counterexample:
  "returned (LambdaOnObject
      \<lparr>objectName = ''srv'', on_target_thread = False, target_running = False,
       start_after = 0, lambda_takes = 0, put_after = 0\<rparr> None 1000 (0::nat)) \<and>
   \<not> lambda_completed (LambdaOnObject
      \<lparr>objectName = ''srv'', on_target_thread = False, target_running = False,
       start_after = 0, lambda_takes = 0, put_after = 0\<rparr> None 1000 (0::nat)) \<and>
   \<not> returned (LambdaOnObject
      \<lparr>objectName = ''srv'', on_target_thread = False, target_running = True,
       start_after = 1000, lambda_takes = 2000, put_after = 1500\<rparr> (Some Suc) 4 (0::nat)) \<and>
   lambda_completed (LambdaOnObject
      \<lparr>objectName = ''srv'', on_target_thread = False, target_running = True,
       start_after = 1000, lambda_takes = 2000, put_after = 1500\<rparr> (Some Suc) 4 (0::nat))"
  by (simp add: LambdaOnObject_def functor_progress_def chan_get_def)

text \<open>
  Claim C6, amended. For every invocation with a job that is not empty: if the call
  returns true, the job has run to completion before the call returned; when the caller
  already runs on the target's thread the job executes inline and the call returns true;
  when the target's thread is not running at submit time the call returns false and the
  job never runs; otherwise the call returns true exactly when the queued functor has
  run the job and its put has reached the caller before the timeout, and after a false
  return the job has completed exactly when the lambda returned before the timeout, and
  it runs (or goes on running) to its end exactly when the functor was invoked before
  the timeout. With an empty job the call returns true and nothing runs.
\<close>

theorem LambdaOnObject_true_only_if_job_ran:
  "(returned (LambdaOnObject env (Some f) t w) \<longrightarrow>
      lambda_completed (LambdaOnObject env (Some f) t w) \<and>
      world (LambdaOnObject env (Some f) t w) = f w) \<and>
   (on_target_thread env \<longrightarrow>
      returned (LambdaOnObject env (Some f) t w) \<and>
      lambda_completed (LambdaOnObject env (Some f) t w) \<and>
      world (LambdaOnObject env (Some f) t w) = f w) \<and>
   (\<not> on_target_thread env \<and> \<not> target_running env \<longrightarrow>
      \<not> returned (LambdaOnObject env (Some f) t w) \<and>
      \<not> lambda_started (LambdaOnObject env (Some f) t w) \<and>
      world (LambdaOnObject env (Some f) t w) = w \<and>
      world_final (LambdaOnObject env (Some f) t w) = w) \<and>
   (\<not> on_target_thread env \<and> target_running env \<longrightarrow>
      (returned (LambdaOnObject env (Some f) t w) \<longleftrightarrow>
         start_after env + lambda_takes env + put_after env < 1000 * t) \<and>
      (lambda_completed (LambdaOnObject env (Some f) t w) \<longleftrightarrow>
         start_after env + lambda_takes env < 1000 * t) \<and>
      world_final (LambdaOnObject env (Some f) t w) =
         (if start_after env < 1000 * t then f w else w)) \<and>
   returned (LambdaOnObject env None t w) \<and>
   \<not> lambda_started (LambdaOnObject env None t w) \<and>
   world (LambdaOnObject env None t w) = w \<and>
   world_final (LambdaOnObject env None t w) = w"
proof -
  obtain started completed chan
    where p: "functor_progress env (1000 * t) = (started, completed, chan)"
    by (cases "functor_progress env (1000 * t)")
  note ord = functor_progress_order [OF p]
  have vals: "started = (start_after env < 1000 * t)"
    "completed = (start_after env + lambda_takes env < 1000 * t)"
    "chan_get chan = (start_after env + lambda_takes env + put_after env < 1000 * t)"
    using p by (auto simp: functor_progress_def Let_def chan_get_def split: if_splits)
  show ?thesis
    using ord vals by (simp add: LambdaOnObject_def p)
qed

theorem LambdaOnObject_true_only_if_job_ran_witness:
  "returned (LambdaOnObject
      \<lparr>objectName = ''srv'', on_target_thread = True, target_running = True,
       start_after = 0, lambda_takes = 0, put_after = 0\<rparr> (Some Suc) 1000 (0::nat)) \<and>
   world (LambdaOnObject
      \<lparr>objectName = ''srv'', on_target_thread = True, target_running = True,
       start_after = 0, lambda_takes = 0, put_after = 0\<rparr> (Some Suc) 1000 (0::nat)) = 1 \<and>
   \<not> returned (LambdaOnObject
      \<lparr>objectName = ''srv'', on_target_thread = False, target_running = False,
       start_after = 0, lambda_takes = 0, put_after = 0\<rparr> (Some Suc) 1000 (0::nat)) \<and>
   world_final (LambdaOnObject
      \<lparr>objectName = ''srv'', on_target_thread = False, target_running = False,
       start_after = 0, lambda_takes = 0, put_after = 0\<rparr> (Some Suc) 1000 (0::nat)) = 0 \<and>
   returned (LambdaOnObject
      \<lparr>objectName = ''srv'', on_target_thread = False, target_running = True,
       start_after = 1000, lambda_takes = 2000, put_after = 10\<rparr> (Some Suc) 4 (0::nat)) \<and>
   world (LambdaOnObject
      \<lparr>objectName = ''srv'', on_target_thread = False, target_running = True,
       start_after = 1000, lambda_takes = 2000, put_after = 10\<rparr> (Some Suc) 4 (0::nat)) = 1 \<and>
   \<not> returned (LambdaOnObject
      \<lparr>objectName = ''srv'', on_target_thread = False, target_running = True,
       start_after = 1000, lambda_takes = 5000, put_after = 10\<rparr> (Some Suc) 4 (0::nat)) \<and>
   world_final (LambdaOnObject
      \<lparr>objectName = ''srv'', on_target_thread = False, target_running = True,
       start_after = 1000, lambda_takes = 5000, put_after = 10\<rparr> (Some Suc) 4 (0::nat)) = 1"
  using LambdaOnObject_true_only_if_job_ran
          [of "\<lparr>objectName = ''srv'', on_target_thread = True, target_running = True,
                start_after = 0, lambda_takes = 0, put_after = 0\<rparr>" Suc 1000 "0::nat"]
        LambdaOnObject_true_only_if_job_ran
          [of "\<lparr>objectName = ''srv'', on_target_thread = False, target_running = False,
                start_after = 0, lambda_takes = 0, put_after = 0\<rparr>" Suc 1000 "0::nat"]
        LambdaOnObject_true_only_if_job_ran
          [of "\<lparr>objectName = ''srv'', on_target_thread = False, target_running = True,
                start_after = 1000, lambda_takes = 2000, put_after = 10\<rparr>" Suc 4 "0::nat"]
        LambdaOnObject_true_only_if_job_ran
          [of "\<lparr>objectName = ''srv'', on_target_thread = False, target_running = True,
                start_after = 1000, lambda_takes = 5000, put_after = 10\<rparr>" Suc 4 "0::nat"]
  by (simp add: LambdaOnObject_def functor_progress_def chan_get_def)

section \<open>Proofs: the stats HTTP endpoints\<close>

lemma respond_json_content:
  "contentType (response (fst (respond_json toUtf8 v req))) = contentType (response req)"
  by (simp add: respond_json_def Let_def split: sum.splits)

lemma respond_json_body:
  "toUtf8 (if isNull v then VList [Invalid] else v) False = Inr bytes \<Longrightarrow>
     data (response (fst (respond_json toUtf8 v req))) = bytes @ CRLF \<and>
     snd (respond_json toUtf8 v req) = None"
  by (simp add: respond_json_def Let_def)

lemma respond_json_throws:
  "toUtf8 (if isNull v then VList [Invalid] else v) False = Inl e \<Longrightarrow>
     respond_json toUtf8 v req = (req, Some e)"
  by (simp add: respond_json_def Let_def)

















section \<open>Proofs: options given on the command line and in the config file\<close>

lemma conf_hasValue_iff: "conf_hasValue conf name \<longleftrightarrow> name \<in> fst ` set conf"
  by (auto simp: conf_hasValue_def conf_values_def filter_empty_conv image_iff)

lemma conf_remove_set: "set (conf_remove conf name) = {kv \<in> set conf. fst kv \<noteq> name}"
  by (simp add: conf_remove_def)

lemma conf_hasValue_remove:
  "conf_hasValue (conf_remove conf n) k \<longleftrightarrow> conf_hasValue conf k \<and> k \<noteq> n"
  by (force simp: conf_hasValue_iff conf_remove_set)

lemma warn_dupes_names_shrinks:
  "warn_dupes_names parser ns (conf, logged) = (conf', logged') \<Longrightarrow>
     (\<forall>k. conf_hasValue conf' k \<longrightarrow> conf_hasValue conf k) \<and> set logged \<subseteq> set logged'"
proof (induction ns arbitrary: conf logged)
  case Nil
  then show ?case by simp
next
  case (Cons n ns)
  show ?case
  proof (cases "length n \<noteq> 1 \<and> conf_hasValue conf n \<and> parser_isSet parser n")
    case True
    then have "warn_dupes_names parser ns (conf_remove conf n, logged @ [DupeMsg n]) = (conf', logged')"
      using Cons.prems by auto
    from Cons.IH [OF this] show ?thesis by (auto simp: conf_hasValue_remove)
  next
    case False
    then have "warn_dupes_names parser ns (conf, logged) = (conf', logged')"
      using Cons.prems by (auto split: if_splits)
    from Cons.IH [OF this] show ?thesis .
  qed
qed

lemma warn_dupes_names_removes:
  "warn_dupes_names parser ns (conf, logged) = (conf', logged') \<Longrightarrow>
   name \<in> set ns \<Longrightarrow> length name \<noteq> 1 \<Longrightarrow> parser_isSet parser name \<Longrightarrow>
     \<not> conf_hasValue conf' name \<and> (conf_hasValue conf name \<longrightarrow> DupeMsg name \<in> set logged')"
proof (induction ns arbitrary: conf logged)
  case Nil
  then show ?case by simp
next
  case (Cons n ns)
  show ?case
  proof (cases "length n \<noteq> 1 \<and> conf_hasValue conf n \<and> parser_isSet parser n")
    case True
    then have step: "warn_dupes_names parser ns (conf_remove conf n, logged @ [DupeMsg n]) = (conf', logged')"
      using Cons.prems(1) by auto
    note sh = warn_dupes_names_shrinks [OF step]
    show ?thesis
    proof (cases "name = n")
      case True
      then show ?thesis using sh by (auto simp: conf_hasValue_remove)
    next
      case False
      then have "name \<in> set ns" using Cons.prems(2) by simp
      from Cons.IH [OF step this Cons.prems(3) Cons.prems(4)] False
      show ?thesis by (simp add: conf_hasValue_remove)
    qed
  next
    case False
    then have step: "warn_dupes_names parser ns (conf, logged) = (conf', logged')"
      using Cons.prems(1) by (auto split: if_splits)
    note sh = warn_dupes_names_shrinks [OF step]
    show ?thesis
    proof (cases "name = n")
      case True
      then have "\<not> conf_hasValue conf name" using False Cons.prems by simp
      then show ?thesis using sh by blast
    next
      case False
      then have "name \<in> set ns" using Cons.prems(2) by simp
      from Cons.IH [OF step this Cons.prems(3) Cons.prems(4)]
      show ?thesis .
    qed
  qed
qed

lemma warn_dupes_names_keeps:
  "warn_dupes_names parser ns (conf, logged) = (conf', logged') \<Longrightarrow>
   k \<notin> set ns \<Longrightarrow> conf_hasValue conf k \<Longrightarrow> conf_hasValue conf' k"
proof (induction ns arbitrary: conf logged)
  case Nil
  then show ?case by simp
next
  case (Cons n ns)
  from Cons.prems(2) have kn: "k \<noteq> n" and kns: "k \<notin> set ns" by auto
  show ?case
  proof (cases "length n \<noteq> 1 \<and> conf_hasValue conf n \<and> parser_isSet parser n")
    case True
    then have step: "warn_dupes_names parser ns (conf_remove conf n, logged @ [DupeMsg n]) = (conf', logged')"
      using Cons.prems(1) by auto
    have "conf_hasValue (conf_remove conf n) k"
      using Cons.prems(3) kn by (simp add: conf_hasValue_remove)
    from Cons.IH [OF step kns this] show ?thesis .
  next
    case False
    then have step: "warn_dupes_names parser ns (conf, logged) = (conf', logged')"
      using Cons.prems(1) by (auto split: if_splits)
    from Cons.IH [OF step kns Cons.prems(3)] show ?thesis .
  qed
qed

lemma warn_dupes_shrinks:
  "warn_dupes parser opts (conf, logged) = (conf', logged') \<Longrightarrow>
     (\<forall>k. conf_hasValue conf' k \<longrightarrow> conf_hasValue conf k) \<and> set logged \<subseteq> set logged'"
proof (induction opts arbitrary: conf logged)
  case Nil
  then show ?case by simp
next
  case (Cons opt opts)
  obtain c1 l1 where s1: "warn_dupes_names parser (names opt) (conf, logged) = (c1, l1)"
    by (cases "warn_dupes_names parser (names opt) (conf, logged)")
  then have "warn_dupes parser opts (c1, l1) = (conf', logged')" using Cons.prems by simp
  from Cons.IH [OF this] warn_dupes_names_shrinks [OF s1] show ?case by blast
qed

lemma warn_dupes_removes:
  "warn_dupes parser opts (conf, logged) = (conf', logged') \<Longrightarrow>
   opt \<in> set opts \<Longrightarrow> name \<in> set (names opt) \<Longrightarrow> length name \<noteq> 1 \<Longrightarrow>
   parser_isSet parser name \<Longrightarrow>
     \<not> conf_hasValue conf' name \<and> (conf_hasValue conf name \<longrightarrow> DupeMsg name \<in> set logged')"
proof (induction opts arbitrary: conf logged)
  case Nil
  then show ?case by simp
next
  case (Cons o1 opts)
  obtain c1 l1 where s1: "warn_dupes_names parser (names o1) (conf, logged) = (c1, l1)"
    by (cases "warn_dupes_names parser (names o1) (conf, logged)")
  then have rest: "warn_dupes parser opts (c1, l1) = (conf', logged')" using Cons.prems(1) by simp
  note sh1 = warn_dupes_names_shrinks [OF s1]
  note sh2 = warn_dupes_shrinks [OF rest]
  show ?case
  proof (cases "name \<in> set (names o1)")
    case True
    from warn_dupes_names_removes [OF s1 True Cons.prems(4) Cons.prems(5)]
    show ?thesis using sh2 by blast
  next
    case False
    then have "opt \<in> set opts" using Cons.prems(2,3) by auto
    from Cons.IH [OF rest this Cons.prems(3) Cons.prems(4) Cons.prems(5)]
    have a: "\<not> conf_hasValue conf' name" and b: "conf_hasValue c1 name \<longrightarrow> DupeMsg name \<in> set logged'"
      by blast+
    show ?thesis
    proof (cases "conf_hasValue c1 name")
      case True
      with a b show ?thesis by blast
    next
      case F: False
      have "\<not> conf_hasValue conf name"
        using warn_dupes_names_keeps [OF s1 False] F by blast
      with a show ?thesis by blast
    qed
  qed
qed

lemma conf_absent:
  "\<not> conf_hasValue conf k \<Longrightarrow>
     conf_values conf k = [] \<and> conf_value conf k d = d \<and> \<not> conf_boolValue conf k"
  by (simp add: conf_hasValue_def conf_value_def conf_boolValue_def)

text \<open>
  Claim C1. For every option of \<open>allOptions\<close> and every name of it that is not a single
  character: when the config file has that key and the option is set on the command
  line, the loop logs an info record made of a quote, the key, and the text
  \<open>' specified both via the CLI and the configuration file. The CLI arg will take
  precedence.\<close>, and removes the key from the config file; every later read of the
  option, as a value, a list or a flag, then yields what the command line gave.
\<close>

theorem cli_takes_precedence:
  assumes "opt \<in> set (allOptions dflt haveTests haveBenches)"
    and "name \<in> set (names opt)" and "length name \<noteq> 1"
    and "conf_hasValue conf name" and "parser_isSet parser name"
  shows "\<not> conf_hasValue (fst (warn_dupes parser (allOptions dflt haveTests haveBenches) (conf, []))) name \<and>
         LogRec Info
           [[CHR 0x27], name,
            CHR 0x27 # '' specified both via the CLI and the configuration file. The CLI arg will take precedence.'']
           \<in> set (snd (warn_dupes parser (allOptions dflt haveTests haveBenches) (conf, []))) \<and>
         resolve_value parser (fst (warn_dupes parser (allOptions dflt haveTests haveBenches) (conf, []))) name s =
           parser_value parser s \<and>
         resolve_values parser (fst (warn_dupes parser (allOptions dflt haveTests haveBenches) (conf, []))) name s =
           parser_values parser s \<and>
         resolve_flag parser (fst (warn_dupes parser (allOptions dflt haveTests haveBenches) (conf, []))) name s =
           parser_isSet parser s"
proof -
  obtain conf' logged
    where run: "warn_dupes parser (allOptions dflt haveTests haveBenches) (conf, []) = (conf', logged)"
    by (cases "warn_dupes parser (allOptions dflt haveTests haveBenches) (conf, [])")
  from warn_dupes_removes [OF run assms(1) assms(2) assms(3) assms(5)] assms(4)
  have gone: "\<not> conf_hasValue conf' name" and msg: "DupeMsg name \<in> set logged"
    by blast+
  from msg have rec: "LogRec Info
           [[CHR 0x27], name,
            CHR 0x27 # '' specified both via the CLI and the configuration file. The CLI arg will take precedence.'']
           \<in> set logged"
    by (simp add: DupeMsg_def)
  from conf_absent [OF gone] gone rec show ?thesis
    by (simp add: run resolve_value_def resolve_values_def resolve_flag_def)
qed

theorem cli_takes_precedence_witness:
  "LogRec Info
     [[CHR 0x27], ''polltime'',
      CHR 0x27 # '' specified both via the CLI and the configuration file. The CLI arg will take precedence.'']
   \<in> set (snd (warn_dupes
      \<lparr>optionList = allOptions ''2'' False False, optionNames = [''T'', ''d''],
       optionValues = [(''T'', ''3'')], positionalArguments = [''fulcrum.conf'']\<rparr>
      (allOptions ''2'' False False)
      ([(''polltime'', ''5''), (''tcp'', ''0.0.0.0:50001'')], []))) \<and>
   \<not> conf_hasValue (fst (warn_dupes
      \<lparr>optionList = allOptions ''2'' False False, optionNames = [''T'', ''d''],
       optionValues = [(''T'', ''3'')], positionalArguments = [''fulcrum.conf'']\<rparr>
      (allOptions ''2'' False False)
      ([(''polltime'', ''5''), (''tcp'', ''0.0.0.0:50001'')], []))) ''polltime'' \<and>
   resolve_value
      \<lparr>optionList = allOptions ''2'' False False, optionNames = [''T'', ''d''],
       optionValues = [(''T'', ''3'')], positionalArguments = [''fulcrum.conf'']\<rparr>
      (fst (warn_dupes
        \<lparr>optionList = allOptions ''2'' False False, optionNames = [''T'', ''d''],
         optionValues = [(''T'', ''3'')], positionalArguments = [''fulcrum.conf'']\<rparr>
        (allOptions ''2'' False False)
        ([(''polltime'', ''5''), (''tcp'', ''0.0.0.0:50001'')], [])))
      ''polltime'' ''T'' = ''3''"
proof -
  let ?parser = "\<lparr>optionList = allOptions ''2'' False False, optionNames = [''T'', ''d''],
       optionValues = [(''T'', ''3'')], positionalArguments = [''fulcrum.conf'']\<rparr>"
  let ?conf = "[(''polltime'', ''5''), (''tcp'', ''0.0.0.0:50001'')]"
  let ?opt = "\<lparr>names = [''T'', ''polltime''], valueName = ''polltime'', defaultValues = [''2'']\<rparr>"
  have h1: "?opt \<in> set (allOptions ''2'' False False)"
    by (simp add: allOptions_def option_def)
  have h2: "''polltime'' \<in> set (names ?opt)" by simp
  have h3: "length ''polltime'' \<noteq> 1" by simp
  have h4: "conf_hasValue ?conf ''polltime''"
    by (simp add: conf_hasValue_def conf_values_def)
  have h5: "parser_isSet ?parser ''polltime''"
    by (simp add: parser_isSet_def aliases_def find_option_def allOptions_def option_def)
  have pv: "parser_value ?parser ''T'' = ''3''"
    by (simp add: parser_value_def parser_values_def find_option_def allOptions_def option_def)
  from cli_takes_precedence [OF h1 h2 h3 h4 h5, of "''T''"] pv show ?thesis
    by simp
qed

section \<open>Proofs: the poll time\<close>

lemma parseArgs_polltime_nan:
  "toDouble (conf_value conf ''polltime'' (parser_value parser ''T'')) = (NaN, True) \<Longrightarrow>
     parseArgs_polltime toDouble parser conf = Inr NaN"
  by (simp add: parseArgs_polltime_def polltime_check_def minPollTimeSecs_def maxPollTimeSecs_def
      dgreater_def)

lemma polltime_check_sound:
  "polltime_check (v, ok) = Inr r \<Longrightarrow> r = v \<and> ok \<and> (v = NaN \<or> in_polltime_range v)"
  by (cases v) (auto simp: polltime_check_def minPollTimeSecs_def maxPollTimeSecs_def dgreater_def
      split: if_splits)

lemma polltime_check_rejects:
  "\<not> ok \<or> (v \<noteq> NaN \<and> \<not> in_polltime_range v) \<Longrightarrow>
     polltime_check (v, ok) =
       Inl (BadArgs (''The '' @ [CHR 0x27] @ ''polltime'' @ [CHR 0x27] @
                     '' option must be a numeric value in the range [0.5, 30]''))"
  by (cases v) (auto simp: polltime_check_def minPollTimeSecs_def maxPollTimeSecs_def dgreater_def)

text \<open>
  Claim C2. The check rejects a value that did not parse and a number outside
  \<open>[0.5, 30]\<close> (lemmas \<open>polltime_check_sound\<close> and \<open>polltime_check_rejects\<close>), but a
  NaN, which \<open>toDouble\<close> returns with \<open>ok\<close> set for the input \<open>nan\<close>, passes both
  comparisons: resolution succeeds with a poll time that is not in the range.
\<close>

theorem polltime_nan_accepted:
  "polltime_check (NaN, True) = Inr NaN \<and> \<not> in_polltime_range NaN \<and>
   App_ctor (polltime_check (NaN, True)) = Inr NaN"
  by (simp add: polltime_check_def minPollTimeSecs_def maxPollTimeSecs_def dgreater_def App_ctor_def)

theorem polltime_nan_accepted_witness:
  "parseArgs_polltime (\<lambda>s. if s = ''nan'' then (NaN, True) else (Finite 0, False))
     \<lparr>optionList = allOptions ''2'' False False, optionNames = [''T''],
      optionValues = [(''T'', ''nan'')], positionalArguments = []\<rparr> [] = Inr NaN"
proof -
  have "parser_value
     \<lparr>optionList = allOptions ''2'' False False, optionNames = [''T''],
      optionValues = [(''T'', ''nan'')], positionalArguments = []\<rparr> ''T'' = ''nan''"
    by (simp add: parser_value_def parser_values_def find_option_def allOptions_def option_def)
  then show ?thesis
    using polltime_nan_accepted
    by (simp add: parseArgs_polltime_def conf_value_def conf_values_def)
qed

section \<open>Proofs: certificates and keys\<close>
























end
